theory Spec2Isabelle
  imports Main "HOL-Library.Char_ord" "HOL-Library.List_Lexorder"
begin

section \<open>The document store behind \<^verbatim>\<open>helpers/dbmanager.js\<close>\<close>

text \<open>
  \<^verbatim>\<open>dbmanager.js\<close> talks to four mongoose models; three of them matter here
  (\<^verbatim>\<open>user\<close>, \<^verbatim>\<open>category\<close>, \<^verbatim>\<open>job\<close>).

  An \<^verbatim>\<open>ObjectId\<close> is a natural number. The JavaScript compares two ids through their
  string forms (\<^verbatim>\<open>''+a == ''+b\<close>); the string form of an ObjectId is injective, so that
  comparison is equality of ids.
\<close>

type_synonym oid = nat

text \<open>
  Modelled from the spec: the mongoose schemas of User, Category and Job, which
  \<^verbatim>\<open>dbmanager.js\<close> obtains through \<^verbatim>\<open>mongoose.model\<close> and whose declarations are
  not in \<^verbatim>\<open>dbmanager.js\<close>. The records \<open>user_fields\<close>, \<open>user_doc\<close>, \<open>category\<close>
  and \<open>job_doc\<close> follow section 3 of the specification ("Data model"), restricted to
  the fields that \<^verbatim>\<open>dbmanager.js\<close> reads or writes.

  The fields a caller hands to \<^verbatim>\<open>new User(...)\<close>; the stored document adds \<^verbatim>\<open>_id\<close>.
  An optional field that is absent from the document is \<open>None\<close>.
  Reference arrays hold ids; a populated entry is represented by the id of the document
  that replaced it.
\<close>

record user_fields =
  u_id :: int
  busy :: bool
  bio :: "string option"
  hourly_rate :: "int option"
  name :: string
  categories :: "oid list"
  jobs :: "oid list"
  job_draft :: "oid option"

record user_doc = user_fields +
  u_oid :: oid

text \<open>
  A category holds references in \<^verbatim>\<open>freelancers\<close> when it is read plainly and user
  documents when \<^verbatim>\<open>populate\<close> has expanded the path; the type parameter is the kind
  of entry.
\<close>

record 'f category =
  c_oid :: oid
  title :: string
  freelancers :: "'f list"

type_synonym category_doc = "oid category"
type_synonym populated_category = "user_doc category"

record job_doc =
  j_oid :: oid
  job_category :: oid
  notInterestedCandidates :: "oid list"

text \<open>
  The store: each collection in its natural order, and the set of store commands that
  currently fail (connectivity, validation, ...). A failing command hands \<^verbatim>\<open>err\<close> to
  its callback and changes nothing.
\<close>

datatype store_op = Find_user | Find_category | Find_job | Save_user | Save_category

datatype js_error = StoreError | TypeError

record store =
  user_coll :: "user_doc list"
  category_coll :: "category_doc list"
  job_coll :: "job_doc list"
  failing :: "store_op set"

text \<open>
  What the caller of an operation observes: its callback invoked with arguments, its
  callback never invoked, or an exception raised where the caller cannot catch it (inside
  a store callback or as a rejection of a promise nobody holds), the callback again never
  invoked.
\<close>

datatype 'a completion = Called 'a | Never_called | Thrown js_error

subsection \<open>Queries\<close>

text \<open>
  The conditions \<^verbatim>\<open>dbmanager.js\<close> puts on users. A query is a list of conditions that
  must all hold (\<^verbatim>\<open>$and\<close>; a one-field query object is a one-element list).
\<close>

datatype user_cond =
    Id_is int                   \<comment> \<open>\<^verbatim>\<open>{ id: n }\<close>\<close>
  | Busy_is bool                \<comment> \<open>\<^verbatim>\<open>{ busy: b }\<close>\<close>
  | Bio_exists bool             \<comment> \<open>\<^verbatim>\<open>{ bio: { $exists: b } }\<close>\<close>
  | Hourly_rate_exists bool     \<comment> \<open>\<^verbatim>\<open>{ hourly_rate: { $exists: b } }\<close>\<close>
  | Categories_has oid          \<comment> \<open>\<^verbatim>\<open>{ categories: c }\<close> on an array field\<close>
  | Oid_nin "oid list"          \<comment> \<open>\<^verbatim>\<open>{ _id: { $nin: ids } }\<close>\<close>
  | Oid_in "oid list"           \<comment> \<open>\<^verbatim>\<open>{ _id: { $in: ids } }\<close>, the query \<^verbatim>\<open>populate\<close> issues\<close>

fun holds :: "user_cond \<Rightarrow> user_doc \<Rightarrow> bool" where
  "holds (Id_is n) u = (u_id u = n)"
| "holds (Busy_is b) u = (busy u = b)"
| "holds (Bio_exists b) u = ((bio u \<noteq> None) = b)"
| "holds (Hourly_rate_exists b) u = ((hourly_rate u \<noteq> None) = b)"
| "holds (Categories_has c) u = (c \<in> set (categories u))"
| "holds (Oid_nin ids) u = (u_oid u \<notin> set ids)"
| "holds (Oid_in ids) u = (u_oid u \<in> set ids)"

definition matches :: "user_cond list \<Rightarrow> user_doc \<Rightarrow> bool" where
  "matches q u = list_all (\<lambda>c. holds c u) q"

subsection \<open>Store commands\<close>

definition User_findOne :: "user_cond list \<Rightarrow> store \<Rightarrow> js_error + user_doc option" where
  "User_findOne q st =
     (if Find_user \<in> failing st then Inl StoreError
      else Inr (List.find (matches q) (user_coll st)))"

text \<open>\<^verbatim>\<open>User.find(q)\<close> without a sort: the matching documents in natural order.\<close>

definition User_find :: "user_cond list \<Rightarrow> store \<Rightarrow> js_error + user_doc list" where
  "User_find q st =
     (if Find_user \<in> failing st then Inl StoreError
      else Inr (filter (matches q) (user_coll st)))"

definition Category_findById :: "oid \<Rightarrow> store \<Rightarrow> js_error + category_doc option" where
  "Category_findById i st =
     (if Find_category \<in> failing st then Inl StoreError
      else Inr (List.find (\<lambda>c. c_oid c = i) (category_coll st)))"

definition Category_findOne_title :: "string \<Rightarrow> store \<Rightarrow> js_error + category_doc option" where
  "Category_findOne_title t st =
     (if Find_category \<in> failing st then Inl StoreError
      else Inr (List.find (\<lambda>c. title c = t) (category_coll st)))"

text \<open>\<^verbatim>\<open>Category.find({}).sort('title')\<close>: every category, by title ascending.\<close>

definition Category_find_sorted :: "store \<Rightarrow> js_error + category_doc list" where
  "Category_find_sorted st =
     (if Find_category \<in> failing st then Inl StoreError
      else Inr (sort_key title (category_coll st)))"

definition Job_findById :: "oid \<Rightarrow> store \<Rightarrow> js_error + job_doc option" where
  "Job_findById i st =
     (if Find_job \<in> failing st then Inl StoreError
      else Inr (List.find (\<lambda>j. j_oid j = i) (job_coll st)))"

text \<open>
  \<^verbatim>\<open>populate({ path: 'freelancers', match: m, options: { sort: { name: d } } })\<close>
  on a category: one query for the referenced users that satisfy \<open>m\<close>, ordered by
  \<^verbatim>\<open>name\<close> (descending for a negative \<open>d\<close>); the documents found replace the
  references. Strings compare lexicographically by character code.
\<close>

definition sort_by_name :: "int \<Rightarrow> user_doc list \<Rightarrow> user_doc list" where
  "sort_by_name d us = (if d < 0 then rev (sort_key name us) else sort_key name us)"

definition populate_freelancers ::
  "user_cond list \<Rightarrow> int \<Rightarrow> store \<Rightarrow> category_doc \<Rightarrow> js_error + populated_category" where
  "populate_freelancers m d st c =
     (case User_find (Oid_in (freelancers c) # m) st of
        Inl err \<Rightarrow> Inl err
      | Inr docs \<Rightarrow>
          Inr \<lparr>c_oid = c_oid c, title = title c, freelancers = sort_by_name d docs\<rparr>)"

fun populate_each ::
  "user_cond list \<Rightarrow> int \<Rightarrow> store \<Rightarrow> category_doc list \<Rightarrow> js_error + populated_category list" where
  "populate_each m d st [] = Inr []"
| "populate_each m d st (c # cs) =
     (case populate_freelancers m d st c of
        Inl err \<Rightarrow> Inl err
      | Inr pc \<Rightarrow>
          (case populate_each m d st cs of
             Inl err \<Rightarrow> Inl err
           | Inr pcs \<Rightarrow> Inr (pc # pcs)))"

text \<open>
  \<^verbatim>\<open>populate(['categories', 'jobs', 'job_draft'])\<close> on a user: a reference that
  names a stored document is replaced by that document, an array entry that names none is
  dropped, and a single reference that names none becomes \<^verbatim>\<open>null\<close>.
  \<open>references_resolve st u\<close> says that every reference of \<open>u\<close> names a stored
  document, so that population keeps every entry of \<open>u\<close> in place.
\<close>

definition populate_user :: "store \<Rightarrow> user_doc \<Rightarrow> user_doc" where
  "populate_user st u =
     u\<lparr>categories := filter (\<lambda>c. c \<in> set (map c_oid (category_coll st))) (categories u),
       jobs := filter (\<lambda>j. j \<in> set (map j_oid (job_coll st))) (jobs u),
       job_draft :=
         (case job_draft u of
            None \<Rightarrow> None
          | Some j \<Rightarrow> if j \<in> set (map j_oid (job_coll st)) then Some j else None)\<rparr>"

definition references_resolve :: "store \<Rightarrow> user_doc \<Rightarrow> bool" where
  "references_resolve st u =
     (list_all (\<lambda>c. c \<in> set (map c_oid (category_coll st))) (categories u) \<and>
      list_all (\<lambda>j. j \<in> set (map j_oid (job_coll st))) (jobs u) \<and>
      (case job_draft u of
         None \<Rightarrow> True
       | Some j \<Rightarrow> j \<in> set (map j_oid (job_coll st))))"

text \<open>
  \<^verbatim>\<open>doc.save(cb)\<close>: the stored document with the same \<^verbatim>\<open>_id\<close> is replaced by
  the in-memory one; a document that is not stored yet is appended. The callback receives
  \<^verbatim>\<open>(err)\<close> or \<^verbatim>\<open>(null, doc)\<close>.
\<close>

definition put_user :: "user_doc \<Rightarrow> user_doc list \<Rightarrow> user_doc list" where
  "put_user u us =
     (if u_oid u \<in> set (map u_oid us)
      then map (\<lambda>d. if u_oid d = u_oid u then u else d) us
      else us @ [u])"

definition put_category :: "category_doc \<Rightarrow> category_doc list \<Rightarrow> category_doc list" where
  "put_category c cs =
     (if c_oid c \<in> set (map c_oid cs)
      then map (\<lambda>d. if c_oid d = c_oid c then c else d) cs
      else cs @ [c])"

definition User_save :: "user_doc \<Rightarrow> store \<Rightarrow> (js_error + user_doc) \<times> store" where
  "User_save u st =
     (if Save_user \<in> failing st then (Inl StoreError, st)
      else (Inr u, st\<lparr>user_coll := put_user u (user_coll st)\<rparr>))"

definition Category_save :: "category_doc \<Rightarrow> store \<Rightarrow> (js_error + category_doc) \<times> store" where
  "Category_save c st =
     (if Save_category \<in> failing st then (Inl StoreError, st)
      else (Inr c, st\<lparr>category_coll := put_category c (category_coll st)\<rparr>))"



section \<open>The operations of \<^verbatim>\<open>dbmanager.js\<close>\<close>

subsection \<open>User\<close>

text \<open>
  \<^verbatim>\<open>findUser(query)\<close> returns a promise. It is fulfilled with the user or with
  \<^verbatim>\<open>null\<close>; on a store error the \<^verbatim>\<open>exec\<close> callback throws and the promise is
  never settled (\<open>Inl\<close>). The definition hands on the stored document: it is
  \<^verbatim>\<open>findUser\<close> for users whose references resolve, where
  \<^verbatim>\<open>populate(['categories', 'jobs', 'job_draft'])\<close> keeps every entry
  (\<open>populate_user_resolved\<close> below). Every statement about what
  \<^verbatim>\<open>toggleCategoryForUser\<close> does with the array of a stored user carries
  \<open>references_resolve\<close> as a hypothesis.
\<close>

definition findUser :: "user_cond list \<Rightarrow> store \<Rightarrow> js_error + user_doc option" where
  "findUser query st =
     (case User_findOne query st of
        Inl err \<Rightarrow> Inl err
      | Inr user \<Rightarrow> Inr user)"


text \<open>
  \<^verbatim>\<open>toggleUserAvailability\<close>: the \<^verbatim>\<open>then\<close> handler reads \<^verbatim>\<open>user.busy\<close>
  without testing \<^verbatim>\<open>user\<close>; on \<^verbatim>\<open>null\<close> that is a TypeError rejecting a promise
  that the function does not return.
\<close>

definition toggleUserAvailability ::
  "int \<Rightarrow> store \<Rightarrow> (js_error option \<times> user_doc option) completion \<times> store" where
  "toggleUserAvailability chatId st =
     (case findUser [Id_is chatId] st of
        Inl err \<Rightarrow> (Thrown err, st)
      | Inr None \<Rightarrow> (Thrown TypeError, st)
      | Inr (Some user) \<Rightarrow>
          (case User_save (user\<lparr>busy := \<not> busy user\<rparr>) st of
             (Inl err, st') \<Rightarrow> (Called (Some err, None), st')
           | (Inr saved, st') \<Rightarrow> (Called (None, Some saved), st')))"

text \<open>
  The two scanning loops of \<^verbatim>\<open>findCategoryCallback\<close>:
  \<^verbatim>\<open>for (let i = 0; i < xs.length; i++) { if (xs[i] == x) { index = i; break; } }\<close>
  with \<^verbatim>\<open>index\<close> starting at \<open>-1\<close>. \<open>scan xs x i\<close> is the loop from position
  \<open>i\<close> on.
\<close>

function scan :: "oid list \<Rightarrow> oid \<Rightarrow> nat \<Rightarrow> int" where
  "scan xs x i =
     (if i < length xs
      then (if xs ! i = x then int i else scan xs x (Suc i))
      else - 1)"
  by pat_completeness auto
termination
  by (relation "measure (\<lambda>(xs, x, i). length xs - i)") auto

declare scan.simps [simp del]

text \<open>\<^verbatim>\<open>xs.splice(index, 1)\<close> for an index inside the array.\<close>

definition splice1 :: "nat \<Rightarrow> 'a list \<Rightarrow> 'a list" where
  "splice1 i xs = take i xs @ drop (Suc i) xs"

text \<open>
  The part of \<^verbatim>\<open>findCategoryCallback\<close> before the two saves: the in-memory change
  of the two documents, and \<^verbatim>\<open>index\<close>.
\<close>

definition toggle_in_memory ::
  "category_doc \<Rightarrow> user_doc \<Rightarrow> user_doc \<times> category_doc \<times> int" where
  "toggle_in_memory category user =
     (let index = scan (categories user) (c_oid category) 0 in
      if index < 0 then
        (user\<lparr>categories := categories user @ [c_oid category]\<rparr>,
         category\<lparr>freelancers := freelancers category @ [u_oid user]\<rparr>,
         index)
      else
        (let user' = user\<lparr>categories := splice1 (nat index) (categories user)\<rparr>;
             ind = scan (freelancers category) (u_oid user') 0
         in if ind > - 1
            then (user', category\<lparr>freelancers := splice1 (nat ind) (freelancers category)\<rparr>, index)
            else (user', category, index)))"

text \<open>
  The callback of \<^verbatim>\<open>toggleCategoryForUser\<close> receives \<^verbatim>\<open>(err, user, index < 0)\<close>.
  \<^verbatim>\<open>user.save\<close> ignores its error and goes on to \<^verbatim>\<open>category.save\<close>, whose error
  branch is empty; \<^verbatim>\<open>user\<close> in the final call is the argument of the first save's
  callback, \<^verbatim>\<open>undefined\<close> when that save failed.
\<close>

type_synonym toggle_result = "(js_error option \<times> user_doc option \<times> bool) completion"

definition findCategoryCallback ::
  "category_doc \<Rightarrow> user_doc option \<Rightarrow> store \<Rightarrow> toggle_result \<times> store" where
  "findCategoryCallback category user st =
     (case user of
        None \<Rightarrow> (Thrown TypeError, st)
      | Some user \<Rightarrow>
          (case toggle_in_memory category user of
             (user', category', index) \<Rightarrow>
               (case User_save user' st of
                  (r1, st1) \<Rightarrow>
                    (case Category_save category' st1 of
                       (Inl err, st2) \<Rightarrow> (Never_called, st2)
                     | (Inr saved, st2) \<Rightarrow>
                         (Called (None,
                                  (case r1 of Inl err \<Rightarrow> None | Inr u \<Rightarrow> Some u),
                                  index < 0), st2)))))"

definition toggleCategoryForUser :: "int \<Rightarrow> oid \<Rightarrow> store \<Rightarrow> toggle_result \<times> store" where
  "toggleCategoryForUser chatId categoryId st =
     (case findUser [Id_is chatId] st of
        Inl err \<Rightarrow> (Thrown err, st)
      | Inr user \<Rightarrow>
          (case Category_findById categoryId st of
             Inl err \<Rightarrow> (Never_called, st)
           | Inr (Some category) \<Rightarrow> findCategoryCallback category user st
           | Inr None \<Rightarrow> (Never_called, st)))"

subsection \<open>Categories\<close>

text \<open>Both callbacks receive \<^verbatim>\<open>(err, result)\<close> straight from \<^verbatim>\<open>exec\<close>.\<close>

definition getCategory ::
  "string \<Rightarrow> store \<Rightarrow> (js_error option \<times> populated_category option) completion" where
  "getCategory categoryTitle st =
     (case Category_findOne_title categoryTitle st of
        Inl err \<Rightarrow> Called (Some err, None)
      | Inr None \<Rightarrow> Called (None, None)
      | Inr (Some c) \<Rightarrow>
          (case populate_freelancers
                  [Busy_is False, Bio_exists True, Hourly_rate_exists True] (- 1) st c of
             Inl err \<Rightarrow> Called (Some err, None)
           | Inr pc \<Rightarrow> Called (None, Some pc)))"

definition getCategories ::
  "store \<Rightarrow> (js_error option \<times> populated_category list option) completion" where
  "getCategories st =
     (case Category_find_sorted st of
        Inl err \<Rightarrow> Called (Some err, None)
      | Inr cs \<Rightarrow>
          (case populate_each
                  [Busy_is False, Bio_exists True, Hourly_rate_exists True] (- 1) st cs of
             Inl err \<Rightarrow> Called (Some err, None)
           | Inr pcs \<Rightarrow> Called (None, Some pcs)))"

subsection \<open>Jobs\<close>

text \<open>
  \<^verbatim>\<open>findJobById(id, callback)\<close> without a \<^verbatim>\<open>populate\<close> argument; its callback
  receives \<^verbatim>\<open>(job)\<close>, and the error branch is empty.
\<close>

definition findJobById :: "oid \<Rightarrow> store \<Rightarrow> job_doc option completion" where
  "findJobById i st =
     (case Job_findById i st of
        Inl err \<Rightarrow> Never_called
      | Inr job \<Rightarrow> Called job)"

text \<open>The callback receives \<^verbatim>\<open>(users)\<close>; an error is logged and nothing is called.\<close>

definition freelancersForJob :: "job_doc \<Rightarrow> store \<Rightarrow> user_doc list completion" where
  "freelancersForJob job st =
     (case User_find
             [Categories_has (job_category job),
              Busy_is False,
              Bio_exists True,
              Hourly_rate_exists True,
              Oid_nin (notInterestedCandidates job)] st of
        Inl err \<Rightarrow> Never_called
      | Inr users \<Rightarrow> Called users)"

text \<open>The callback receives \<^verbatim>\<open>(users)\<close> or \<^verbatim>\<open>(null)\<close>.\<close>

definition freelancersForJobId :: "oid \<Rightarrow> store \<Rightarrow> user_doc list option completion" where
  "freelancersForJobId jobId st =
     (case findJobById jobId st of
        Called (Some job) \<Rightarrow>
          (case freelancersForJob job st of
             Called users \<Rightarrow> Called (Some users)
           | Never_called \<Rightarrow> Never_called
           | Thrown e \<Rightarrow> Thrown e)
      | Called None \<Rightarrow> Called None
      | Never_called \<Rightarrow> Never_called
      | Thrown e \<Rightarrow> Thrown e)"

section \<open>Properties named by the specification\<close>

text \<open>
  Symmetric membership (specification, section 3): a user's \<^verbatim>\<open>categories\<close> holds a
  category exactly when that category's \<^verbatim>\<open>freelancers\<close> holds the user.
\<close>

definition symmetric :: "store \<Rightarrow> bool" where
  "symmetric st =
     (\<forall>u \<in> set (user_coll st). \<forall>c \<in> set (category_coll st).
        (c_oid c \<in> set (categories u)) = (u_oid u \<in> set (freelancers c)))"

text \<open>
  The availability predicate and the ordering of the specification's section 4.2.
\<close>

definition available :: "user_doc \<Rightarrow> bool" where
  "available u = (\<not> busy u \<and> bio u \<noteq> None \<and> hourly_rate u \<noteq> None)"

definition name_descending :: "user_doc list \<Rightarrow> bool" where
  "name_descending us = sorted_wrt (\<lambda>a b. name b \<le> name a) us"

text \<open>
  A populated category \<open>pc\<close> is the stored category \<open>c\<close> with its freelancer list
  expanded as section 4.2 demands: exactly the referenced users that are available,
  by name descending.
\<close>

definition freelancer_list_of :: "store \<Rightarrow> category_doc \<Rightarrow> populated_category \<Rightarrow> bool" where
  "freelancer_list_of st c pc =
     (c_oid pc = c_oid c \<and> title pc = title c \<and>
      set (freelancers pc) =
        set (filter (\<lambda>u. u_oid u \<in> set (freelancers c) \<and> available u) (user_coll st)) \<and>
      name_descending (freelancers pc))"

subsection \<open>Sample documents\<close>

definition amy :: user_doc where
  "amy = \<lparr>u_id = 7, busy = False, bio = Some ''designer'', hourly_rate = Some 20,
          name = ''Amy'', categories = [], jobs = [], job_draft = None, u_oid = 10\<rparr>"

definition design :: category_doc where
  "design = \<lparr>c_oid = 1, title = ''Design'', freelancers = []\<rparr>"

definition store0 :: store where
  "store0 = \<lparr>user_coll = [amy], category_coll = [design], job_coll = [], failing = {}\<rparr>"

definition amy_listed :: user_doc where
  "amy_listed = amy\<lparr>categories := [1]\<rparr>"

definition store_onesided :: store where
  "store_onesided =
     \<lparr>user_coll = [amy_listed], category_coll = [design], job_coll = [], failing = {}\<rparr>"

definition store_category_save_fails :: store where
  "store_category_save_fails = store0\<lparr>failing := {Save_category}\<rparr>"

definition store_user_save_fails :: store where
  "store_user_save_fails = store0\<lparr>failing := {Save_user}\<rparr>"

definition freelancer ::
  "oid \<Rightarrow> int \<Rightarrow> string \<Rightarrow> bool \<Rightarrow> string option \<Rightarrow> int option \<Rightarrow> user_doc" where
  "freelancer i n nm b bi r =
     \<lparr>u_id = n, busy = b, bio = bi, hourly_rate = r, name = nm, categories = [1], jobs = [],
      job_draft = None, u_oid = i\<rparr>"

definition store1 :: store where
  "store1 =
     \<lparr>user_coll =
        [freelancer 10 7 ''Amy'' False (Some ''logos'') (Some 20),
         freelancer 11 8 ''Ben'' True (Some ''icons'') (Some 30),
         freelancer 12 9 ''Cid'' False None (Some 10),
         freelancer 13 10 ''Dan'' False (Some ''posters'') (Some 15),
         freelancer 14 11 ''Eve'' False (Some ''fonts'') None,
         freelancer 15 12 ''Fay'' False (Some ''layouts'') (Some 25)],
      category_coll = [\<lparr>c_oid = 1, title = ''Design'', freelancers = [10, 11, 12, 13, 14, 15]\<rparr>],
      job_coll = [\<lparr>j_oid = 100, job_category = 1, notInterestedCandidates = [13]\<rparr>],
      failing = {}\<rparr>"


definition job100 :: job_doc where
  "job100 = \<lparr>j_oid = 100, job_category = 1, notInterestedCandidates = [13]\<rparr>"

definition design1 :: category_doc where
  "design1 = \<lparr>c_oid = 1, title = ''Design'', freelancers = [10, 11, 12, 13, 14, 15]\<rparr>"

section \<open>Auxiliary facts\<close>

lemmas sample_defs = store0_def amy_def design_def
lemmas op_defs = toggleCategoryForUser_def findCategoryCallback_def findUser_def User_findOne_def
  Category_findById_def User_save_def Category_save_def matches_def put_user_def put_category_def

subsection \<open>The scanning loop\<close>

lemma scan_neg_iff: "scan xs x i < 0 \<longleftrightarrow> x \<notin> set (drop i xs)"
proof (induction xs x i rule: scan.induct)
  case (1 xs x i)
  show ?case
  proof (cases "i < length xs")
    case True
    then have d: "drop i xs = xs ! i # drop (Suc i) xs"
      by (simp add: Cons_nth_drop_Suc)
    show ?thesis
    proof (cases "xs ! i = x")
      case True
      with \<open>i < length xs\<close> d show ?thesis by (subst scan.simps) simp
    next
      case False
      with \<open>i < length xs\<close> d "1.IH" show ?thesis by (subst scan.simps) auto
    qed
  next
    case False
    then show ?thesis by (subst scan.simps) simp
  qed
qed

lemma scan_splice1:
  "x \<in> set (drop i xs) \<Longrightarrow> splice1 (nat (scan xs x i)) xs = take i xs @ remove1 x (drop i xs)"
proof (induction xs x i rule: scan.induct)
  case (1 xs x i)
  from "1.prems" have lt: "i < length xs"
    by (cases "i < length xs") auto
  then have d: "drop i xs = xs ! i # drop (Suc i) xs"
    by (simp add: Cons_nth_drop_Suc)
  show ?case
  proof (cases "xs ! i = x")
    case True
    with lt d show ?thesis by (subst scan.simps) (simp add: splice1_def)
  next
    case False
    with "1.prems" d have "x \<in> set (drop (Suc i) xs)" by auto
    with "1.IH" lt False
    have "splice1 (nat (scan xs x (Suc i))) xs = take (Suc i) xs @ remove1 x (drop (Suc i) xs)"
      by simp
    with lt d False show ?thesis
      by (subst scan.simps) (simp add: take_Suc_conv_app_nth)
  qed
qed

lemma toggle_in_memory_eq:
  "toggle_in_memory c u =
     (if c_oid c \<in> set (categories u)
      then (u\<lparr>categories := remove1 (c_oid c) (categories u)\<rparr>,
            c\<lparr>freelancers := remove1 (u_oid u) (freelancers c)\<rparr>,
            scan (categories u) (c_oid c) 0)
      else (u\<lparr>categories := categories u @ [c_oid c]\<rparr>,
            c\<lparr>freelancers := freelancers c @ [u_oid u]\<rparr>,
            scan (categories u) (c_oid c) 0))"
  using scan_neg_iff [of "categories u" "c_oid c" 0] scan_neg_iff [of "freelancers c" "u_oid u" 0]
    scan_splice1 [of "c_oid c" 0 "categories u"] scan_splice1 [of "u_oid u" 0 "freelancers c"]
  by (auto simp: toggle_in_memory_def Let_def remove1_idem)

lemma find_replace_user:
  "List.find P us = Some U \<Longrightarrow> u_oid U' = u_oid U \<Longrightarrow> P U' \<Longrightarrow>
   List.find P (map (\<lambda>d. if u_oid d = u_oid U' then U' else d) us) = Some U'"
  by (induction us) (auto split: if_splits)

lemma find_put_user:
  assumes "List.find P us = Some U" "u_oid U' = u_oid U" "P U'"
  shows "List.find P (put_user U' us) = Some U'"
proof -
  from assms(1) have "U \<in> set us" by (auto simp: find_Some_iff)
  with assms(2) have "u_oid U' \<in> set (map u_oid us)"
    by (auto simp: image_iff intro!: bexI [of _ U])
  with find_replace_user [OF assms] show ?thesis by (simp add: put_user_def)
qed

lemma find_replace_category:
  "List.find (\<lambda>c. c_oid c = i) cs = Some C \<Longrightarrow> c_oid C' = i \<Longrightarrow>
   List.find (\<lambda>c. c_oid c = i) (map (\<lambda>d. if c_oid d = c_oid C' then C' else d) cs) = Some C'"
  by (induction cs) (auto split: if_splits)

lemma find_put_category:
  assumes "List.find (\<lambda>c. c_oid c = i) cs = Some C" "c_oid C' = i"
  shows "List.find (\<lambda>c. c_oid c = i) (put_category C' cs) = Some C'"
proof -
  from assms(1) have "C \<in> set cs" "c_oid C = i" by (auto simp: find_Some_iff)
  with assms(2) have "c_oid C' \<in> set (map c_oid cs)"
    by (auto simp: image_iff intro!: bexI [of _ C])
  with find_replace_category [OF assms] show ?thesis by (simp add: put_category_def)
qed

lemma toggle_no_faults:
  assumes "failing st = {}"
    and "findUser [Id_is chatId] st = Inr (Some U)"
    and "Category_findById categoryId st = Inr (Some C)"
  shows "toggleCategoryForUser chatId categoryId st =
     (case toggle_in_memory C U of (U', C', index) \<Rightarrow>
       (Called (None, Some U', index < 0),
        st\<lparr>user_coll := put_user U' (user_coll st),
           category_coll := put_category C' (category_coll st)\<rparr>))"
  using assms
  by (simp add: toggleCategoryForUser_def findCategoryCallback_def User_save_def
      Category_save_def split: prod.splits)

lemma findUser_Some:
  "findUser q st = Inr (Some U) \<longleftrightarrow>
   Find_user \<notin> failing st \<and> List.find (matches q) (user_coll st) = Some U"
  by (auto simp: findUser_def User_findOne_def split: sum.splits if_splits)

lemma Category_findById_Some:
  "Category_findById i st = Inr (Some C) \<longleftrightarrow>
   Find_category \<notin> failing st \<and> List.find (\<lambda>c. c_oid c = i) (category_coll st) = Some C"
  by (auto simp: Category_findById_def)

lemma toggle_add:
  assumes "failing st = {}"
    and "findUser [Id_is chatId] st = Inr (Some U)"
    and "Category_findById categoryId st = Inr (Some C)"
    and "categoryId \<notin> set (categories U)"
  shows "toggleCategoryForUser chatId categoryId st =
     (Called (None, Some (U\<lparr>categories := categories U @ [categoryId]\<rparr>), True),
      st\<lparr>user_coll := put_user (U\<lparr>categories := categories U @ [categoryId]\<rparr>) (user_coll st),
         category_coll :=
           put_category (C\<lparr>freelancers := freelancers C @ [u_oid U]\<rparr>) (category_coll st)\<rparr>)"
proof -
  from assms(3) have "c_oid C = categoryId"
    by (auto simp: Category_findById_Some find_Some_iff)
  with assms(4) scan_neg_iff [of "categories U" categoryId 0] show ?thesis
    by (simp add: toggle_no_faults [OF assms(1-3)] toggle_in_memory_eq)
qed

lemma toggle_remove:
  assumes "failing st = {}"
    and "findUser [Id_is chatId] st = Inr (Some U)"
    and "Category_findById categoryId st = Inr (Some C)"
    and "categoryId \<in> set (categories U)"
  shows "toggleCategoryForUser chatId categoryId st =
     (Called (None, Some (U\<lparr>categories := remove1 categoryId (categories U)\<rparr>), False),
      st\<lparr>user_coll := put_user (U\<lparr>categories := remove1 categoryId (categories U)\<rparr>) (user_coll st),
         category_coll :=
           put_category (C\<lparr>freelancers := remove1 (u_oid U) (freelancers C)\<rparr>) (category_coll st)\<rparr>)"
proof -
  from assms(3) have "c_oid C = categoryId"
    by (auto simp: Category_findById_Some find_Some_iff)
  with assms(4) scan_neg_iff [of "categories U" categoryId 0] show ?thesis
    by (simp add: toggle_no_faults [OF assms(1-3)] toggle_in_memory_eq)
qed

lemma lookups_after_put:
  assumes "failing st = {}"
    and "findUser [Id_is chatId] st = Inr (Some U)"
    and "Category_findById categoryId st = Inr (Some C)"
    and "u_oid U' = u_oid U" "u_id U' = u_id U" "c_oid C' = c_oid C"
  shows "findUser [Id_is chatId]
           (st\<lparr>user_coll := put_user U' (user_coll st),
               category_coll := put_category C' (category_coll st)\<rparr>) = Inr (Some U')"
    and "Category_findById categoryId
           (st\<lparr>user_coll := put_user U' (user_coll st),
               category_coll := put_category C' (category_coll st)\<rparr>) = Inr (Some C')"
proof -
  from assms(2) have f: "List.find (matches [Id_is chatId]) (user_coll st) = Some U"
    by (simp add: findUser_Some)
  then have "matches [Id_is chatId] U" by (auto simp: find_Some_iff)
  with assms(5) have "matches [Id_is chatId] U'" by (simp add: matches_def)
  from find_put_user [OF f assms(4) this] assms(1)
  show "findUser [Id_is chatId]
           (st\<lparr>user_coll := put_user U' (user_coll st),
               category_coll := put_category C' (category_coll st)\<rparr>) = Inr (Some U')"
    by (simp add: findUser_Some)
  from assms(3) have g: "List.find (\<lambda>c. c_oid c = categoryId) (category_coll st) = Some C"
    by (simp add: Category_findById_Some)
  then have "c_oid C = categoryId" by (auto simp: find_Some_iff)
  with assms(6) have "c_oid C' = categoryId" by simp
  from find_put_category [OF g this] assms(1)
  show "Category_findById categoryId
           (st\<lparr>user_coll := put_user U' (user_coll st),
               category_coll := put_category C' (category_coll st)\<rparr>) = Inr (Some C')"
    by (simp add: Category_findById_Some)
qed

lemma set_put_user:
  "U \<in> set us \<Longrightarrow> u_oid U' = u_oid U \<Longrightarrow>
   set (put_user U' us) = insert U' {u \<in> set us. u_oid u \<noteq> u_oid U}"
  by (auto simp: put_user_def image_iff)

lemma set_put_category:
  "C \<in> set cs \<Longrightarrow> c_oid C' = c_oid C \<Longrightarrow>
   set (put_category C' cs) = insert C' {c \<in> set cs. c_oid c \<noteq> c_oid C}"
  by (auto simp: put_category_def image_iff)

lemma symmetric_put:
  assumes "symmetric st" "U \<in> set (user_coll st)" "C \<in> set (category_coll st)"
    and "u_oid U' = u_oid U" "c_oid C' = c_oid C"
    and "(c_oid C \<in> set (categories U')) = (u_oid U \<in> set (freelancers C'))"
    and "\<And>x. x \<noteq> c_oid C \<Longrightarrow> (x \<in> set (categories U')) = (x \<in> set (categories U))"
    and "\<And>y. y \<noteq> u_oid U \<Longrightarrow> (y \<in> set (freelancers C')) = (y \<in> set (freelancers C))"
  shows "symmetric (st\<lparr>user_coll := put_user U' (user_coll st),
                       category_coll := put_category C' (category_coll st)\<rparr>)"
  unfolding symmetric_def
proof (intro ballI)
  fix u c
  assume "u \<in> set (user_coll (st\<lparr>user_coll := put_user U' (user_coll st),
                       category_coll := put_category C' (category_coll st)\<rparr>))"
    and "c \<in> set (category_coll (st\<lparr>user_coll := put_user U' (user_coll st),
                       category_coll := put_category C' (category_coll st)\<rparr>))"
  then have u: "u = U' \<or> (u \<in> set (user_coll st) \<and> u_oid u \<noteq> u_oid U)"
    and c: "c = C' \<or> (c \<in> set (category_coll st) \<and> c_oid c \<noteq> c_oid C)"
    using set_put_user [OF assms(2,4)] set_put_category [OF assms(3,5)] by auto
  from assms(1) have sym: "\<And>u c. u \<in> set (user_coll st) \<Longrightarrow> c \<in> set (category_coll st) \<Longrightarrow>
      (c_oid c \<in> set (categories u)) = (u_oid u \<in> set (freelancers c))"
    by (simp add: symmetric_def)
  from u c show "(c_oid c \<in> set (categories u)) = (u_oid u \<in> set (freelancers c))"
  proof (elim disjE conjE)
    assume "u = U'" "c = C'"
    with assms(4-6) show ?thesis by simp
  next
    assume "u = U'" "c \<in> set (category_coll st)" "c_oid c \<noteq> c_oid C"
    with assms(4) assms(7) [of "c_oid c"] sym [OF assms(2), of c] show ?thesis by simp
  next
    assume "u \<in> set (user_coll st)" "u_oid u \<noteq> u_oid U" "c = C'"
    with assms(5) assms(8) [of "u_oid u"] sym [OF _ assms(3), of u] show ?thesis by simp
  next
    assume "u \<in> set (user_coll st)" "u_oid u \<noteq> u_oid U"
      "c \<in> set (category_coll st)" "c_oid c \<noteq> c_oid C"
    with sym show ?thesis by simp
  qed
qed

subsection \<open>Population and resolving references\<close>

lemma populate_user_resolved: "references_resolve st u \<Longrightarrow> populate_user st u = u"
proof -
  assume r: "references_resolve st u"
  then have "filter (\<lambda>c. c \<in> set (map c_oid (category_coll st))) (categories u) = categories u"
    and "filter (\<lambda>j. j \<in> set (map j_oid (job_coll st))) (jobs u) = jobs u"
    by (simp_all add: references_resolve_def list_all_iff)
  moreover from r have "(case job_draft u of
            None \<Rightarrow> None
          | Some j \<Rightarrow> if j \<in> set (map j_oid (job_coll st)) then Some j else None) = job_draft u"
    by (auto simp: references_resolve_def split: option.splits)
  ultimately show ?thesis by (simp add: populate_user_def)
qed

text \<open>A reference that names no stored category is dropped, and then the hypothesis fails.\<close>

lemma populate_user_drops_unresolved:
  "populate_user store_onesided (amy\<lparr>categories := [5, 1]\<rparr>) = amy\<lparr>categories := [1]\<rparr> \<and>
   \<not> references_resolve store_onesided (amy\<lparr>categories := [5, 1]\<rparr>)"
  by (simp add: populate_user_def references_resolve_def store_onesided_def amy_def design_def)

lemma oids_put_category:
  assumes "C \<in> set cs" "c_oid C' = c_oid C"
  shows "set (map c_oid (put_category C' cs)) = set (map c_oid cs)"
  using assms set_put_category [OF assms] by (auto simp: image_iff)

lemma references_resolve_put:
  assumes res: "references_resolve st U"
    and C: "C \<in> set (category_coll st)" "c_oid C' = c_oid C"
    and cats: "set (categories U') \<subseteq> insert (c_oid C) (set (categories U))"
    and rest: "jobs U' = jobs U" "job_draft U' = job_draft U"
  shows "references_resolve
           (st\<lparr>user_coll := us, category_coll := put_category C' (category_coll st)\<rparr>) U'"
proof -
  from C(1) have "c_oid C \<in> set (map c_oid (category_coll st))" by simp
  with res cats have "\<forall>c \<in> set (categories U'). c \<in> set (map c_oid (category_coll st))"
    by (auto simp: references_resolve_def list_all_iff)
  with res rest show ?thesis
    by (auto simp: references_resolve_def list_all_iff oids_put_category [OF C]
        simp del: set_map split: option.splits)
qed

lemma toggle_step_add:
  assumes nf: "failing st = {}"
    and fu: "findUser [Id_is chatId] st = Inr (Some U)"
    and fc: "Category_findById categoryId st = Inr (Some C)"
    and absent: "categoryId \<notin> set (categories U)" "u_oid U \<notin> set (freelancers C)"
    and sym: "symmetric st"
    and res: "references_resolve st U"
    and run: "toggleCategoryForUser chatId categoryId st = (r, st')"
  defines "U' \<equiv> U\<lparr>categories := categories U @ [categoryId]\<rparr>"
    and "C' \<equiv> C\<lparr>freelancers := freelancers C @ [u_oid U]\<rparr>"
  shows "r = Called (None, Some U', True)"
    and "failing st' = {}"
    and "findUser [Id_is chatId] st' = Inr (Some U')"
    and "Category_findById categoryId st' = Inr (Some C')"
    and "symmetric st'"
    and "references_resolve st' U'"
proof -
  from fu have Uin: "U \<in> set (user_coll st)"
    by (auto simp: findUser_Some find_Some_iff)
  from fc have Cin: "C \<in> set (category_coll st)" and cid: "c_oid C = categoryId"
    by (auto simp: Category_findById_Some find_Some_iff)
  from run toggle_add [OF nf fu fc absent(1)]
  have r: "r = Called (None, Some U', True)"
    and st': "st' = st\<lparr>user_coll := put_user U' (user_coll st),
                         category_coll := put_category C' (category_coll st)\<rparr>"
    by (simp_all add: U'_def C'_def)
  show "r = Called (None, Some U', True)" by (rule r)
  show "failing st' = {}" using nf st' by simp
  show "findUser [Id_is chatId] st' = Inr (Some U')"
    unfolding st' by (rule lookups_after_put(1) [OF nf fu fc]) (simp_all add: U'_def C'_def)
  show "Category_findById categoryId st' = Inr (Some C')"
    unfolding st' by (rule lookups_after_put(2) [OF nf fu fc]) (simp_all add: U'_def C'_def)
  show "symmetric st'"
    unfolding st' using cid
    by (intro symmetric_put [OF sym Uin Cin]) (auto simp: U'_def C'_def)
  show "references_resolve st' U'"
    unfolding st' using cid
    by (intro references_resolve_put [OF res Cin]) (auto simp: U'_def C'_def)
qed

lemma toggle_step_remove:
  assumes nf: "failing st = {}"
    and fu: "findUser [Id_is chatId] st = Inr (Some U)"
    and fc: "Category_findById categoryId st = Inr (Some C)"
    and once: "count_list (categories U) categoryId = 1" "count_list (freelancers C) (u_oid U) = 1"
    and sym: "symmetric st"
    and res: "references_resolve st U"
    and run: "toggleCategoryForUser chatId categoryId st = (r, st')"
  defines "U' \<equiv> U\<lparr>categories := remove1 categoryId (categories U)\<rparr>"
    and "C' \<equiv> C\<lparr>freelancers := remove1 (u_oid U) (freelancers C)\<rparr>"
  shows "r = Called (None, Some U', False)"
    and "failing st' = {}"
    and "findUser [Id_is chatId] st' = Inr (Some U')"
    and "Category_findById categoryId st' = Inr (Some C')"
    and "symmetric st'"
    and "references_resolve st' U'"
    and "categoryId \<notin> set (categories U')"
    and "u_oid U \<notin> set (freelancers C')"
proof -
  from fu have Uin: "U \<in> set (user_coll st)"
    by (auto simp: findUser_Some find_Some_iff)
  from fc have Cin: "C \<in> set (category_coll st)" and cid: "c_oid C = categoryId"
    by (auto simp: Category_findById_Some find_Some_iff)
  from once(1) have present: "categoryId \<in> set (categories U)"
    by (metis count_list_0_iff zero_neq_one)
  from run toggle_remove [OF nf fu fc present]
  have r: "r = Called (None, Some U', False)"
    and st': "st' = st\<lparr>user_coll := put_user U' (user_coll st),
                         category_coll := put_category C' (category_coll st)\<rparr>"
    by (simp_all add: U'_def C'_def)
  have gone: "\<And>x xs. count_list xs x = 1 \<Longrightarrow> (x::nat) \<notin> set (remove1 x xs)"
  proof -
    fix x :: nat and xs
    assume "count_list xs x = 1"
    then show "x \<notin> set (remove1 x xs)"
      by (induction xs) (auto split: if_splits simp: count_list_0_iff)
  qed
  show a: "categoryId \<notin> set (categories U')" using gone [OF once(1)] by (simp add: U'_def)
  show b: "u_oid U \<notin> set (freelancers C')" using gone [OF once(2)] by (simp add: C'_def)
  show "r = Called (None, Some U', False)" by (rule r)
  show "failing st' = {}" using nf st' by simp
  show "findUser [Id_is chatId] st' = Inr (Some U')"
    unfolding st' by (rule lookups_after_put(1) [OF nf fu fc]) (simp_all add: U'_def C'_def)
  show "Category_findById categoryId st' = Inr (Some C')"
    unfolding st' by (rule lookups_after_put(2) [OF nf fu fc]) (simp_all add: U'_def C'_def)
  show "symmetric st'"
    unfolding st' using cid a b
    by (intro symmetric_put [OF sym Uin Cin]) (auto simp: U'_def C'_def)
  show "references_resolve st' U'"
    unfolding st' using cid set_remove1_subset [of categoryId "categories U"]
    by (intro references_resolve_put [OF res Cin]) (auto simp: U'_def C'_def)
qed

section \<open>The claims\<close>

text \<open>
  Claim C1 (toggle symmetry). No store command fails, the user \<open>U\<close> is the one
  \<^verbatim>\<open>findUser({ id: chatId })\<close> resolves, \<open>C\<close> the category \<^verbatim>\<open>findById\<close> resolves,
  the references of \<open>U\<close> resolve (they do again after each call),
  \<open>C\<close> is not in \<open>U.categories\<close>, and the store is symmetric. Then the first call of
  \<^verbatim>\<open>toggleCategoryForUser\<close> appends \<open>C\<close> to \<open>U.categories\<close> and \<open>U\<close> to
  \<open>C.freelancers\<close> and reports \<open>added = true\<close>; the second call restores both
  documents (both memberships absent) and reports \<open>added = false\<close>; the third call is
  the first again. The store is symmetric after each call.
\<close>

theorem toggle_symmetry:
  assumes nf: "failing st = {}"
    and fu: "findUser [Id_is chatId] st = Inr (Some U)"
    and fc: "Category_findById categoryId st = Inr (Some C)"
    and res: "references_resolve st U"
    and absent: "categoryId \<notin> set (categories U)"
    and sym: "symmetric st"
    and run1: "toggleCategoryForUser chatId categoryId st = (r1, st1)"
    and run2: "toggleCategoryForUser chatId categoryId st1 = (r2, st2)"
    and run3: "toggleCategoryForUser chatId categoryId st2 = (r3, st3)"
  shows "(let U' = U\<lparr>categories := categories U @ [categoryId]\<rparr>;
              C' = C\<lparr>freelancers := freelancers C @ [u_oid U]\<rparr>
          in r1 = Called (None, Some U', True) \<and>
             findUser [Id_is chatId] st1 = Inr (Some U') \<and>
             Category_findById categoryId st1 = Inr (Some C') \<and>
             categoryId \<in> set (categories U') \<and> u_oid U \<in> set (freelancers C') \<and>
             symmetric st1 \<and> references_resolve st1 U' \<and>
             r2 = Called (None, Some U, False) \<and>
             findUser [Id_is chatId] st2 = Inr (Some U) \<and>
             Category_findById categoryId st2 = Inr (Some C) \<and>
             categoryId \<notin> set (categories U) \<and> u_oid U \<notin> set (freelancers C) \<and>
             symmetric st2 \<and> references_resolve st2 U \<and>
             r3 = Called (None, Some U', True) \<and>
             findUser [Id_is chatId] st3 = Inr (Some U') \<and>
             Category_findById categoryId st3 = Inr (Some C') \<and>
             symmetric st3 \<and> references_resolve st3 U')"
proof -
  define U' where "U' = U\<lparr>categories := categories U @ [categoryId]\<rparr>"
  define C' where "C' = C\<lparr>freelancers := freelancers C @ [u_oid U]\<rparr>"
  from fu have Uin: "U \<in> set (user_coll st)"
    by (auto simp: findUser_Some find_Some_iff)
  from fc have Cin: "C \<in> set (category_coll st)" and cid: "c_oid C = categoryId"
    by (auto simp: Category_findById_Some find_Some_iff)
  from sym Uin Cin cid absent have absent': "u_oid U \<notin> set (freelancers C)"
    by (auto simp: symmetric_def)
  note s1 = toggle_step_add [OF nf fu fc absent absent' sym res run1, folded U'_def C'_def]
  have once: "count_list (categories U') categoryId = 1"
    "count_list (freelancers C') (u_oid U') = 1"
    using absent absent' by (simp_all add: U'_def C'_def count_list_0_iff)
  have restored: "U'\<lparr>categories := remove1 categoryId (categories U')\<rparr> = U"
    "C'\<lparr>freelancers := remove1 (u_oid U') (freelancers C')\<rparr> = C"
    using absent absent' by (simp_all add: U'_def C'_def remove1_append)
  note s2 = toggle_step_remove [OF s1(2) s1(3) s1(4) once s1(5) s1(6) run2, unfolded restored]
  note s3 = toggle_step_add [OF s2(2) s2(3) s2(4) absent absent' s2(5) s2(6) run3,
      folded U'_def C'_def]
  have mem: "categoryId \<in> set (categories U')" "u_oid U \<in> set (freelancers C')"
    by (simp_all add: U'_def C'_def)
  from s1 s2 s3 mem absent absent' show ?thesis
    unfolding Let_def U'_def [symmetric] C'_def [symmetric] by simp
qed

theorem toggle_symmetry_witness:
  "fst (toggleCategoryForUser 7 1 store0) = Called (None, Some (amy\<lparr>categories := [1]\<rparr>), True) \<and>
   symmetric (snd (toggleCategoryForUser 7 1 store0)) \<and>
   references_resolve (snd (toggleCategoryForUser 7 1 store0)) (amy\<lparr>categories := [1]\<rparr>) \<and>
   fst (toggleCategoryForUser 7 1 (snd (toggleCategoryForUser 7 1 store0))) =
     Called (None, Some amy, False) \<and>
   fst (toggleCategoryForUser 7 1
         (snd (toggleCategoryForUser 7 1 (snd (toggleCategoryForUser 7 1 store0))))) =
     Called (None, Some (amy\<lparr>categories := [1]\<rparr>), True)"
proof -
  have h: "failing store0 = {}" "findUser [Id_is 7] store0 = Inr (Some amy)"
    "Category_findById 1 store0 = Inr (Some design)" "references_resolve store0 amy"
    "1 \<notin> set (categories amy)" "symmetric store0"
    by (simp_all add: store0_def amy_def design_def findUser_def User_findOne_def matches_def
        Category_findById_def symmetric_def references_resolve_def)
  from toggle_symmetry [OF h prod.collapse [symmetric] prod.collapse [symmetric] prod.collapse [symmetric]]
  show ?thesis by (simp add: Let_def amy_def)
qed

text \<open>
  Claim C2 (toggle tolerates asymmetry). No store command fails, the references of
  \<open>U\<close> resolve (they do again afterwards), \<open>U.categories\<close>
  contains \<open>C\<close> and \<open>C.freelancers\<close> does not contain \<open>U\<close>. Then
  \<^verbatim>\<open>toggleCategoryForUser\<close> removes the first entry for \<open>C\<close> from
  \<open>U.categories\<close> (one occurrence fewer; none left when there was one), the category
  document is resolved unchanged afterwards, the callback receives no error and
  \<open>added = false\<close>.
\<close>

theorem toggle_tolerates_asymmetry:
  assumes nf: "failing st = {}"
    and fu: "findUser [Id_is chatId] st = Inr (Some U)"
    and fc: "Category_findById categoryId st = Inr (Some C)"
    and res: "references_resolve st U"
    and present: "categoryId \<in> set (categories U)"
    and missing: "u_oid U \<notin> set (freelancers C)"
    and run: "toggleCategoryForUser chatId categoryId st = (r, st')"
  shows "(let U' = U\<lparr>categories := remove1 categoryId (categories U)\<rparr>
          in r = Called (None, Some U', False) \<and>
             findUser [Id_is chatId] st' = Inr (Some U') \<and>
             Category_findById categoryId st' = Inr (Some C) \<and>
             references_resolve st' U' \<and>
             count_list (categories U') categoryId + 1 = count_list (categories U) categoryId \<and>
             (count_list (categories U) categoryId = 1 \<longrightarrow> categoryId \<notin> set (categories U')))"
proof -
  define U' where "U' = U\<lparr>categories := remove1 categoryId (categories U)\<rparr>"
  have same: "C\<lparr>freelancers := remove1 (u_oid U) (freelancers C)\<rparr> = C"
    using missing by (simp add: remove1_idem)
  from run toggle_remove [OF nf fu fc present]
  have r: "r = Called (None, Some U', False)"
    and st': "st' = st\<lparr>user_coll := put_user U' (user_coll st),
                         category_coll := put_category C (category_coll st)\<rparr>"
    by (simp_all add: U'_def same)
  have fu': "findUser [Id_is chatId] st' = Inr (Some U')"
    unfolding st' by (rule lookups_after_put(1) [OF nf fu fc]) (simp_all add: U'_def)
  have fc': "Category_findById categoryId st' = Inr (Some C)"
    unfolding st' by (rule lookups_after_put(2) [OF nf fu fc]) (simp_all add: U'_def)
  from fc have Cin: "C \<in> set (category_coll st)"
    by (auto simp: Category_findById_Some find_Some_iff)
  have res': "references_resolve st' U'"
    unfolding st' using set_remove1_subset [of categoryId "categories U"]
    by (intro references_resolve_put [OF res Cin]) (auto simp: U'_def)
  have cnt: "\<And>xs. categoryId \<in> set xs \<Longrightarrow>
      count_list (remove1 categoryId xs) categoryId + 1 = count_list xs categoryId"
  proof -
    fix xs :: "nat list"
    assume "categoryId \<in> set xs"
    then show "count_list (remove1 categoryId xs) categoryId + 1 = count_list xs categoryId"
      by (induction xs) auto
  qed
  from cnt [OF present]
  have c1: "count_list (categories U') categoryId + 1 = count_list (categories U) categoryId"
    by (simp add: U'_def)
  then have c2: "count_list (categories U) categoryId = 1 \<longrightarrow> categoryId \<notin> set (categories U')"
    by (auto simp: count_list_0_iff)
  from r fu' fc' res' c1 c2 show ?thesis
    unfolding Let_def U'_def [symmetric] by simp
qed

theorem toggle_tolerates_asymmetry_witness:
  "fst (toggleCategoryForUser 7 1 store_onesided) = Called (None, Some amy, False) \<and>
   findUser [Id_is 7] (snd (toggleCategoryForUser 7 1 store_onesided)) = Inr (Some amy) \<and>
   Category_findById 1 (snd (toggleCategoryForUser 7 1 store_onesided)) = Inr (Some design) \<and>
   references_resolve (snd (toggleCategoryForUser 7 1 store_onesided)) amy"
proof -
  have h: "failing store_onesided = {}"
    "findUser [Id_is 7] store_onesided = Inr (Some amy_listed)"
    "Category_findById 1 store_onesided = Inr (Some design)"
    "references_resolve store_onesided amy_listed"
    "1 \<in> set (categories amy_listed)"
    "u_oid amy_listed \<notin> set (freelancers design)"
    by (simp_all add: store_onesided_def amy_listed_def amy_def design_def findUser_def
        User_findOne_def matches_def Category_findById_def references_resolve_def)
  from toggle_tolerates_asymmetry [OF h prod.collapse [symmetric]]
  show ?thesis by (simp add: Let_def amy_listed_def amy_def)
qed

text \<open>
  Claim C10 (frame of the in-memory mutation). The documents \<open>U'\<close> and \<open>C'\<close> that
  \<^verbatim>\<open>findCategoryCallback\<close> hands to \<^verbatim>\<open>user.save\<close> and \<^verbatim>\<open>category.save\<close> are the
  loaded \<open>U\<close> and \<open>C\<close> except for \<^verbatim>\<open>categories\<close> of the user and
  \<^verbatim>\<open>freelancers\<close> of the category: every other field is as loaded.
\<close>

theorem toggle_frame:
  "(case toggle_in_memory C U of
      (U', C', index) \<Rightarrow>
        U' = U\<lparr>categories := categories U'\<rparr> \<and>
        C' = C\<lparr>freelancers := freelancers C'\<rparr> \<and>
        u_oid U' = u_oid U \<and> u_id U' = u_id U \<and> busy U' = busy U \<and> bio U' = bio U \<and>
        hourly_rate U' = hourly_rate U \<and> name U' = name U \<and> jobs U' = jobs U \<and>
        job_draft U' = job_draft U \<and>
        c_oid C' = c_oid C \<and> title C' = title C \<and>
        findCategoryCallback C (Some U) st =
          (case User_save U' st of
             (r1, st1) \<Rightarrow>
               (case Category_save C' st1 of
                  (Inl err, st2) \<Rightarrow> (Never_called, st2)
                | (Inr saved, st2) \<Rightarrow>
                    (Called (None, (case r1 of Inl err \<Rightarrow> None | Inr u \<Rightarrow> Some u), index < 0),
                     st2))))"
  by (simp add: toggle_in_memory_eq findCategoryCallback_def)

text \<open>
  Claim C4 (not found in \<^verbatim>\<open>toggleCategoryForUser\<close>), evaluated on the sample store,
  which holds the user with \<^verbatim>\<open>id\<close> 7 and the category with \<^verbatim>\<open>_id\<close> 1. An unknown
  category: the branch \<^verbatim>\<open>// todo: handle if category isn't there\<close> is empty and the
  callback is never invoked, whether the user exists or not. An unknown user with a known
  category: the category is still looked up, and \<^verbatim>\<open>findCategoryCallback\<close> reads
  \<^verbatim>\<open>user.categories\<close> of \<^verbatim>\<open>null\<close>, a TypeError inside the store callback. In no
  case does the caller receive a failure.
\<close>

theorem toggle_not_found_unreported:
  "toggleCategoryForUser 7 2 store0 = (Never_called, store0) \<and>
   toggleCategoryForUser 8 2 store0 = (Never_called, store0) \<and>
   toggleCategoryForUser 8 1 store0 = (Thrown TypeError, store0)"
  by (simp add: sample_defs op_defs)

text \<open>
  Claim C5 (both writes must complete), evaluated on the sample store. When
  \<^verbatim>\<open>category.save\<close> fails, the user document has been written and the callback is
  never invoked. When \<^verbatim>\<open>user.save\<close> fails, its error is dropped, the category is
  written and the callback receives \<^verbatim>\<open>err = null\<close>, \<^verbatim>\<open>user = undefined\<close> and
  \<open>added = true\<close>.
\<close>

theorem toggle_save_failure_unreported:
  "toggleCategoryForUser 7 1 store_category_save_fails =
     (Never_called, store_category_save_fails\<lparr>user_coll := [amy\<lparr>categories := [1]\<rparr>]\<rparr>) \<and>
   toggleCategoryForUser 7 1 store_user_save_fails =
     (Called (None, None, True),
      store_user_save_fails\<lparr>category_coll := [design\<lparr>freelancers := [10]\<rparr>]\<rparr>)"
  by (simp add: store_category_save_fails_def store_user_save_fails_def sample_defs op_defs
      toggle_in_memory_def scan.simps)

lemma toggleUserAvailability_found:
  assumes "findUser [Id_is chatId] st = Inr (Some U)" "Save_user \<notin> failing st"
  shows "toggleUserAvailability chatId st =
     (Called (None, Some (U\<lparr>busy := \<not> busy U\<rparr>)),
      st\<lparr>user_coll := put_user (U\<lparr>busy := \<not> busy U\<rparr>) (user_coll st)\<rparr>)"
  using assms by (simp add: toggleUserAvailability_def User_save_def)

text \<open>
  Claim C9 (\<^verbatim>\<open>toggleUserAvailability\<close>). With a stored user and a working save, the
  \<^verbatim>\<open>busy\<close> flag is flipped and the document written (first fact). With no user of
  that \<^verbatim>\<open>id\<close>, evaluated on the sample store: \<^verbatim>\<open>user.busy\<close> of \<^verbatim>\<open>null\<close> raises a
  TypeError in the \<^verbatim>\<open>then\<close> handler, the callback is never invoked and the store is
  unchanged (the theorem).
\<close>

theorem toggleUserAvailability_unknown_user:
  "toggleUserAvailability 8 store0 = (Thrown TypeError, store0)"
  by (simp add: toggleUserAvailability_def sample_defs op_defs)










lemma matches_availability:
  "matches (Oid_in ids # [Busy_is False, Bio_exists True, Hourly_rate_exists True]) u =
     (u_oid u \<in> set ids \<and> available u)"
  by (simp add: matches_def available_def)

lemma name_descending_sort: "name_descending (sort_by_name (- 1) us)"
proof -
  have "sorted (map name (sort_key name us))" by (rule sorted_sort_key)
  then have "sorted_wrt (\<lambda>a b. name a \<le> name b) (sort_key name us)"
    by (simp only: sorted_map)
  then show ?thesis
    by (simp add: name_descending_def sort_by_name_def sorted_wrt_rev)
qed

lemma set_sort_by_name: "set (sort_by_name d us) = set us"
  by (simp add: sort_by_name_def)

lemma populate_freelancers_available:
  assumes "Find_user \<notin> failing st"
  shows "\<exists>pc. populate_freelancers [Busy_is False, Bio_exists True, Hourly_rate_exists True]
                (- 1) st c = Inr pc \<and> freelancer_list_of st c pc"
  using assms
  by (simp add: populate_freelancers_def User_find_def freelancer_list_of_def
      matches_availability [abs_def] set_sort_by_name name_descending_sort)


lemma populate_each_available:
  assumes "Find_user \<notin> failing st"
  shows "\<exists>pcs. populate_each [Busy_is False, Bio_exists True, Hourly_rate_exists True]
                (- 1) st cs = Inr pcs \<and> list_all2 (freelancer_list_of st) cs pcs"
proof (induction cs)
  case Nil
  show ?case by simp
next
  case (Cons c cs)
  from populate_freelancers_available [OF assms, of c] Cons.IH show ?case by auto
qed

lemma populate_each_member:
  "populate_each m d st cs = Inr pcs \<Longrightarrow> c \<in> set cs \<Longrightarrow>
   \<exists>pc \<in> set pcs. populate_freelancers m d st c = Inr pc"
  by (induction cs arbitrary: pcs) (auto split: sum.splits)

text \<open>
  Claim C3 (availability filter). With working lookups, the category that
  \<^verbatim>\<open>getCategory\<close> returns for a title, and every category that \<^verbatim>\<open>getCategories\<close>
  returns, carries as \<^verbatim>\<open>freelancers\<close> exactly the referenced stored users with
  \<^verbatim>\<open>busy = false\<close>, a \<^verbatim>\<open>bio\<close> and an \<^verbatim>\<open>hourly_rate\<close>, by \<^verbatim>\<open>name\<close>
  descending; and what \<^verbatim>\<open>getCategory\<close> returns is one of the entries of
  \<^verbatim>\<open>getCategories\<close>, so both apply the same predicate and ordering.
\<close>

theorem availability_filter:
  assumes nf: "Find_category \<notin> failing st" "Find_user \<notin> failing st"
  shows "(\<forall>c. Category_findOne_title t st = Inr (Some c) \<longrightarrow>
            (\<exists>pc. getCategory t st = Called (None, Some pc) \<and> freelancer_list_of st c pc)) \<and>
         (\<exists>cs pcs. Category_find_sorted st = Inr cs \<and>
            getCategories st = Called (None, Some pcs) \<and>
            list_all2 (freelancer_list_of st) cs pcs \<and>
            (\<forall>pc. getCategory t st = Called (None, Some pc) \<longrightarrow> pc \<in> set pcs))"
proof (intro conjI allI impI)
  fix c
  assume c: "Category_findOne_title t st = Inr (Some c)"
  from populate_freelancers_available [OF nf(2), of c] c
  show "\<exists>pc. getCategory t st = Called (None, Some pc) \<and> freelancer_list_of st c pc"
    by (auto simp: getCategory_def)
next
  let ?m = "[Busy_is False, Bio_exists True, Hourly_rate_exists True]"
  let ?cs = "sort_key title (category_coll st)"
  from nf(1) have cs: "Category_find_sorted st = Inr ?cs"
    by (simp add: Category_find_sorted_def)
  from populate_each_available [OF nf(2), of ?cs]
  obtain pcs where pcs: "populate_each ?m (- 1) st ?cs = Inr pcs"
    and all: "list_all2 (freelancer_list_of st) ?cs pcs"
    by blast
  from cs pcs have gc: "getCategories st = Called (None, Some pcs)"
    by (simp add: getCategories_def)
  have same: "pc \<in> set pcs" if g: "getCategory t st = Called (None, Some pc)" for pc
  proof -
    from g nf(1) obtain c
      where f: "List.find (\<lambda>c. title c = t) (category_coll st) = Some c"
        and p: "populate_freelancers ?m (- 1) st c = Inr pc"
      by (auto simp: getCategory_def Category_findOne_title_def split: option.splits sum.splits)
    from f have "c \<in> set ?cs" by (auto simp: find_Some_iff)
    from populate_each_member [OF pcs this] p show ?thesis by auto
  qed
  from cs gc all same
  show "\<exists>cs pcs. Category_find_sorted st = Inr cs \<and>
            getCategories st = Called (None, Some pcs) \<and>
            list_all2 (freelancer_list_of st) cs pcs \<and>
            (\<forall>pc. getCategory t st = Called (None, Some pc) \<longrightarrow> pc \<in> set pcs)"
    by blast
qed


theorem availability_filter_witness:
  "Category_findOne_title ''Design'' store1 = Inr (Some design1) \<and>
   (\<exists>pc. getCategory ''Design'' store1 = Called (None, Some pc) \<and>
      freelancer_list_of store1 design1 pc) \<and>
   getCategory ''Design'' store1 =
     Called (None, Some \<lparr>c_oid = 1, title = ''Design'', freelancers =
       [freelancer 15 12 ''Fay'' False (Some ''layouts'') (Some 25),
        freelancer 13 10 ''Dan'' False (Some ''posters'') (Some 15),
        freelancer 10 7 ''Amy'' False (Some ''logos'') (Some 20)]\<rparr>) \<and>
   getCategories store1 =
     Called (None, Some [\<lparr>c_oid = 1, title = ''Design'', freelancers =
       [freelancer 15 12 ''Fay'' False (Some ''layouts'') (Some 25),
        freelancer 13 10 ''Dan'' False (Some ''posters'') (Some 15),
        freelancer 10 7 ''Amy'' False (Some ''logos'') (Some 20)]\<rparr>])"
proof -
  have h: "Find_category \<notin> failing store1" "Find_user \<notin> failing store1"
    by (simp_all add: store1_def)
  have c: "Category_findOne_title ''Design'' store1 = Inr (Some design1)"
    by (simp add: Category_findOne_title_def store1_def design1_def)
  have g: "getCategory ''Design'' store1 =
     Called (None, Some \<lparr>c_oid = 1, title = ''Design'', freelancers =
       [freelancer 15 12 ''Fay'' False (Some ''layouts'') (Some 25),
        freelancer 13 10 ''Dan'' False (Some ''posters'') (Some 15),
        freelancer 10 7 ''Amy'' False (Some ''logos'') (Some 20)]\<rparr>)"
    by (simp add: getCategory_def Category_findOne_title_def populate_freelancers_def
        User_find_def matches_def sort_by_name_def store1_def freelancer_def)
  from availability_filter [OF h, of "''Design''"] g
  obtain pcs where p: "getCategories store1 = Called (None, Some pcs)"
    and l: "list_all2 (freelancer_list_of store1) (sort_key title (category_coll store1)) pcs"
    and m: "\<lparr>c_oid = 1, title = ''Design'', freelancers =
       [freelancer 15 12 ''Fay'' False (Some ''layouts'') (Some 25),
        freelancer 13 10 ''Dan'' False (Some ''posters'') (Some 15),
        freelancer 10 7 ''Amy'' False (Some ''logos'') (Some 20)]\<rparr> \<in> set pcs"
    using h(1) by (auto simp: Category_find_sorted_def)
  from l have "length pcs = 1" by (simp add: list_all2_lengthD [symmetric] store1_def)
  with m have "pcs = [\<lparr>c_oid = 1, title = ''Design'', freelancers =
       [freelancer 15 12 ''Fay'' False (Some ''layouts'') (Some 25),
        freelancer 13 10 ''Dan'' False (Some ''posters'') (Some 15),
        freelancer 10 7 ''Amy'' False (Some ''logos'') (Some 20)]\<rparr>]"
    by (cases pcs) auto
  with p c g availability_filter [OF h, of "''Design''"] show ?thesis by simp
qed

text \<open>
  Claim C7 (job matching). With a working lookup, \<^verbatim>\<open>freelancersForJob\<close> hands to its
  callback exactly the stored users that list \<^verbatim>\<open>job.category\<close>, are available and are
  not among \<^verbatim>\<open>job.notInterestedCandidates\<close>, in the natural order of the collection;
  no sort by name is applied.
\<close>

theorem freelancersForJob_matching:
  assumes "Find_user \<notin> failing st"
  shows "freelancersForJob job st =
     Called (filter (\<lambda>u. job_category job \<in> set (categories u) \<and> available u \<and>
                         u_oid u \<notin> set (notInterestedCandidates job)) (user_coll st))"
proof -
  have "matches [Categories_has (job_category job), Busy_is False, Bio_exists True,
                 Hourly_rate_exists True, Oid_nin (notInterestedCandidates job)] =
        (\<lambda>u. job_category job \<in> set (categories u) \<and> available u \<and>
             u_oid u \<notin> set (notInterestedCandidates job))"
    by (auto simp: matches_def available_def fun_eq_iff)
  with assms show ?thesis
    by (simp add: freelancersForJob_def User_find_def)
qed

theorem freelancersForJob_matching_witness:
  "freelancersForJob job100 store1 =
     Called [freelancer 10 7 ''Amy'' False (Some ''logos'') (Some 20),
             freelancer 15 12 ''Fay'' False (Some ''layouts'') (Some 25)] \<and>
   \<not> name_descending [freelancer 10 7 ''Amy'' False (Some ''logos'') (Some 20),
             freelancer 15 12 ''Fay'' False (Some ''layouts'') (Some 25)]"
proof -
  have h: "Find_user \<notin> failing store1" by (simp add: store1_def)
  from freelancersForJob_matching [OF h, of job100] show ?thesis
    by (simp add: store1_def job100_def freelancer_def available_def name_descending_def)
qed

text \<open>
  Claim C8 (unknown job id). When the lookup of the job id yields no document,
  \<^verbatim>\<open>freelancersForJobId\<close> invokes its callback with \<^verbatim>\<open>null\<close>; when it yields a job,
  the outcome is that of \<^verbatim>\<open>freelancersForJob\<close> on that job; in no case is an error
  raised.
\<close>

theorem freelancersForJobId_unknown:
  "(Job_findById jobId st = Inr None \<longrightarrow> freelancersForJobId jobId st = Called None) \<and>
   (\<forall>job. Job_findById jobId st = Inr (Some job) \<longrightarrow>
      freelancersForJobId jobId st =
        (case freelancersForJob job st of
           Called users \<Rightarrow> Called (Some users)
         | Never_called \<Rightarrow> Never_called
         | Thrown e \<Rightarrow> Thrown e)) \<and>
   (\<forall>e. freelancersForJobId jobId st \<noteq> Thrown e)"
  by (auto simp: freelancersForJobId_def findJobById_def freelancersForJob_def
      split: sum.splits option.splits completion.splits)

theorem freelancersForJobId_unknown_witness:
  "Job_findById 99 store1 = Inr None \<and> freelancersForJobId 99 store1 = Called None \<and>
   Job_findById 100 store1 = Inr (Some job100) \<and>
   freelancersForJobId 100 store1 =
     Called (Some [freelancer 10 7 ''Amy'' False (Some ''logos'') (Some 20),
                   freelancer 15 12 ''Fay'' False (Some ''layouts'') (Some 25)])"
proof -
  have h: "Job_findById 99 store1 = Inr None" "Job_findById 100 store1 = Inr (Some job100)"
    by (simp_all add: Job_findById_def store1_def job100_def)
  have f: "freelancersForJob job100 store1 =
     Called [freelancer 10 7 ''Amy'' False (Some ''logos'') (Some 20),
             freelancer 15 12 ''Fay'' False (Some ''layouts'') (Some 25)]"
    by (simp add: freelancersForJob_def User_find_def matches_def store1_def job100_def
        freelancer_def)
  from freelancersForJobId_unknown [of 99 store1] freelancersForJobId_unknown [of 100 store1] h f
  show ?thesis by simp
qed

end
